theory Spec2Isabelle
  imports Main "HOL-Library.Sublist"
begin

section \<open>Strings of the Python runtime\<close>

text \<open>
  Page texts, form fields and file names are Python \<open>str\<close> values.  They are modelled as
  \<open>string\<close>; the library functions below are those of Python on ASCII text, which is
  the range on which the model follows the interpreter (a character above 127 is left
  alone by \<open>upper\<close> and \<open>lower\<close> and is not white space).
\<close>

definition is_space :: "char \<Rightarrow> bool" where
  \<comment> \<open>\<open>str.isspace\<close> and the class \<open>\s\<close> of \<open>re\<close> on ASCII: TAB, LF, VT, FF, CR,
      the separators FS, GS, RS, US and the blank\<close>
  "is_space c = (let n = (of_char c :: nat) in (9 \<le> n \<and> n \<le> 13) \<or> (28 \<le> n \<and> n \<le> 32))"

definition upper_char :: "char \<Rightarrow> char" where
  "upper_char c = (let n = (of_char c :: nat) in if 97 \<le> n \<and> n \<le> 122 then char_of (n - 32) else c)"

definition lower_char :: "char \<Rightarrow> char" where
  "lower_char c = (let n = (of_char c :: nat) in if 65 \<le> n \<and> n \<le> 90 then char_of (n + 32) else c)"

definition upper :: "string \<Rightarrow> string" where
  "upper s = map upper_char s"

definition lower :: "string \<Rightarrow> string" where
  "lower s = map lower_char s"

definition strip :: "string \<Rightarrow> string" where
  \<comment> \<open>\<open>str.strip()\<close>: white space removed at both ends\<close>
  "strip s = rev (dropWhile is_space (rev (dropWhile is_space s)))"

definition endswith :: "string \<Rightarrow> string \<Rightarrow> bool" where
  "endswith s suf = suffix suf s"

section \<open>The fragment of \<open>re\<close> used by the splitter\<close>

text \<open>
  The two patterns of \<open>split_invoices\<close> are built from single characters, the dot,
  \<open>\s+\<close> and one capturing group \<open>(\S+)\<close>.  The matcher is the backtracking matcher of
  \<open>re\<close> on that fragment: a \<open>+\<close> is greedy and gives characters back one at a time;
  \<open>search\<close> tries the start positions from left to right.  \<open>Star\<close> and \<open>Cap_Star\<close>
  are the states of a \<open>+\<close> after its first character; \<open>Cap_Star\<close> carries the text
  captured so far.
\<close>

datatype cclass = Lit char | Dot | Space | NonSpace

fun cmatch :: "cclass \<Rightarrow> char \<Rightarrow> bool" where
  "cmatch (Lit c) x = (x = c)"
| "cmatch Dot x = (x \<noteq> CHR 0x0A)"
| "cmatch Space x = is_space x"
| "cmatch NonSpace x = (\<not> is_space x)"

datatype node = One cclass | Plus cclass | Star cclass | Cap_Plus cclass | Cap_Star cclass string

fun rmatch :: "node list \<Rightarrow> string \<Rightarrow> string list option" where
  "rmatch [] s = Some []"
| "rmatch (One c # r) [] = None"
| "rmatch (One c # r) (x # xs) = (if cmatch c x then rmatch r xs else None)"
| "rmatch (Plus c # r) [] = None"
| "rmatch (Plus c # r) (x # xs) = (if cmatch c x then rmatch (Star c # r) xs else None)"
| "rmatch (Star c # r) [] = rmatch r []"
| "rmatch (Star c # r) (x # xs) =
     (if cmatch c x
      then (case rmatch (Star c # r) xs of Some gs \<Rightarrow> Some gs | None \<Rightarrow> rmatch r (x # xs))
      else rmatch r (x # xs))"
| "rmatch (Cap_Plus c # r) [] = None"
| "rmatch (Cap_Plus c # r) (x # xs) = (if cmatch c x then rmatch (Cap_Star c [x] # r) xs else None)"
| "rmatch (Cap_Star c acc # r) [] = map_option ((#) acc) (rmatch r [])"
| "rmatch (Cap_Star c acc # r) (x # xs) =
     (if cmatch c x
      then (case rmatch (Cap_Star c (acc @ [x]) # r) xs of
              Some gs \<Rightarrow> Some gs
            | None \<Rightarrow> map_option ((#) acc) (rmatch r (x # xs)))
      else map_option ((#) acc) (rmatch r (x # xs)))"

fun search :: "node list \<Rightarrow> string \<Rightarrow> string list option" where
  "search pat [] = rmatch pat []"
| "search pat (x # xs) = (case rmatch pat (x # xs) of Some gs \<Rightarrow> Some gs | None \<Rightarrow> search pat xs)"

definition lits :: "string \<Rightarrow> node list" where
  "lits s = map (\<lambda>c. One (Lit c)) s"

definition doc_pattern :: "node list" where
  \<comment> \<open>\<open>re.compile(r"Document No. : (\S+)")\<close>\<close>
  "doc_pattern = lits ''Document No'' @ [One Dot] @ lits '' : '' @ [Cap_Plus NonSpace]"

definition gst_pattern :: "node list" where
  \<comment> \<open>\<open>re.compile(r"Recipient\s+:\s+GSTIN\s+:\s+(\S+)")\<close>\<close>
  "gst_pattern = lits ''Recipient'' @ [Plus Space, One (Lit CHR '':''), Plus Space]
                 @ lits ''GSTIN'' @ [Plus Space, One (Lit CHR '':''), Plus Space, Cap_Plus NonSpace]"

section \<open>Library functions on file names\<close>

function split_ws :: "string \<Rightarrow> string list" where
  \<comment> \<open>\<open>str.split()\<close>: the maximal runs of characters that are not white space\<close>
  "split_ws s =
     (let t = dropWhile is_space s
      in if t = [] then []
         else takeWhile (\<lambda>c. \<not> is_space c) t # split_ws (dropWhile (\<lambda>c. \<not> is_space c) t))"
  by pat_completeness auto
termination
proof (relation "measure length", goal_cases)
  case 1
  show ?case by simp
next
  case (2 s t)
  then obtain x xs where t: "t = x # xs" and nx: "\<not> is_space x"
    by (metis dropWhile_eq_Nil_conv hd_dropWhile list.collapse)
  have "length (dropWhile (\<lambda>c. \<not> is_space c) t) \<le> length xs"
    using t nx by (simp add: length_dropWhile_le)
  moreover have "length t \<le> length s"
    using 2(1) by (simp add: length_dropWhile_le)
  ultimately show ?case using t by simp
qed

fun join :: "string \<Rightarrow> string list \<Rightarrow> string" where
  \<comment> \<open>\<open>sep.join(parts)\<close>\<close>
  "join sep [] = []"
| "join sep [w] = w"
| "join sep (w # v # ws) = w @ sep @ join sep (v # ws)"

definition strip_chars :: "string \<Rightarrow> string \<Rightarrow> string" where
  \<comment> \<open>\<open>s.strip(chars)\<close>\<close>
  "strip_chars cs s = rev (dropWhile (\<lambda>c. c \<in> set cs) (rev (dropWhile (\<lambda>c. c \<in> set cs) s)))"

definition is_ascii :: "char \<Rightarrow> bool" where
  "is_ascii c = ((of_char c :: nat) < 128)"

definition filename_char :: "char \<Rightarrow> bool" where
  \<comment> \<open>the characters kept by \<open>[^A-Za-z0-9_.-]\<close>\<close>
  "filename_char c =
     (let n = (of_char c :: nat)
      in (65 \<le> n \<and> n \<le> 90) \<or> (97 \<le> n \<and> n \<le> 122) \<or> (48 \<le> n \<and> n \<le> 57)
         \<or> c = CHR ''_'' \<or> c = CHR ''.'' \<or> c = CHR ''-'')"

definition secure_filename :: "string \<Rightarrow> string" where
  \<comment> \<open>\<open>werkzeug.utils.secure_filename\<close> on a POSIX host: characters outside ASCII are
      dropped, a slash becomes a blank, runs of white space become one underscore, every
      character outside \<open>A-Za-z0-9_.-\<close> is removed, and dots and underscores are
      stripped at both ends\<close>
  "secure_filename name =
     strip_chars ''._''
       (filter filename_char
         (join ''_'' (split_ws (map (\<lambda>c. if c = CHR ''/'' then CHR '' '' else c)
                                    (filter is_ascii name)))))"

definition os_path_join :: "string \<Rightarrow> string \<Rightarrow> string" where
  \<comment> \<open>\<open>posixpath.join\<close> of two components\<close>
  "os_path_join a b =
     (if b \<noteq> [] \<and> hd b = CHR ''/'' then b
      else if a = [] \<or> last a = CHR ''/'' then a @ b
      else a @ ''/'' @ b)"

definition UPLOAD_FOLDER :: string where
  "UPLOAD_FOLDER = ''uploads''"

definition OUTPUT_FOLDER :: string where
  "OUTPUT_FOLDER = ''split_invoices''"

definition ALLOWED_EXTENSIONS :: "string set" where
  "ALLOWED_EXTENSIONS = {''pdf'', ''zip''}"

definition rsplit1_last :: "string \<Rightarrow> string" where
  \<comment> \<open>\<open>filename.rsplit('.', 1)[1]\<close> for a name that contains a dot: what follows the
      last dot\<close>
  "rsplit1_last name = rev (takeWhile (\<lambda>c. c \<noteq> CHR ''.'') (rev name))"

definition allowed_file :: "string \<Rightarrow> bool" where
  "allowed_file name = (CHR ''.'' \<in> set name \<and> lower (rsplit1_last name) \<in> ALLOWED_EXTENSIONS)"

section \<open>Documents, failures and effects\<close>

text \<open>
  A page carries what \<open>insert_pdf\<close> copies (its content, left abstract) and what
  \<open>page.get_text("text")\<close> returns; \<open>None\<close> is a page on which the extraction raises.
  A file on disk is a document that \<open>fitz.open\<close> can read, a ZIP archive (the member
  names in archive order, each with its data), or something else.
\<close>

datatype 'a page = Page (content: 'a) (get_text: "string option")

datatype 'a blob = PdfDoc "'a page list" | ZipArchive "(string \<times> 'a blob) list" | Junk

datatype failure =
    IndexError
  | KeyError
  | ValueError
  | BadZipFile
  | FileDataError
  | TextError nat
  | SaveError string

text \<open>
  What a run does to the outside: \<open>Save path pages\<close> is \<open>new_pdf.save(output_path)\<close>,
  \<open>Close\<close> is \<open>doc.close()\<close>, \<open>Store path data\<close> is an upload or an archive member
  written below the upload folder, \<open>Remove path\<close> is \<open>os.remove\<close>.  Every function
  returns the effects it performed, in order, next to its result; a raised exception is
  the \<open>Inl\<close> of the result and keeps the effects performed before it.
\<close>

datatype 'a effect =
    Save string "'a page list"
  | Close
  | Store string "'a blob"
  | Remove string

type_synonym ('r, 'a) run = "(failure + 'r) \<times> 'a effect list"

definition py_index :: "'x list \<Rightarrow> nat \<Rightarrow> failure + 'x" where
  \<comment> \<open>\<open>xs[i]\<close> for an index that is not negative\<close>
  "py_index xs i = (if i < length xs then Inr (xs ! i) else Inl IndexError)"

definition group :: "string list \<Rightarrow> nat \<Rightarrow> failure + string" where
  \<comment> \<open>\<open>m.group(n)\<close> for \<open>n \<ge> 1\<close>, on the groups of a match\<close>
  "group gs n = (if 1 \<le> n \<and> n \<le> length gs then Inr (gs ! (n - 1)) else Inl IndexError)"

definition fitz_open :: "'a blob \<Rightarrow> failure + 'a page list" where
  "fitz_open b = (case b of PdfDoc d \<Rightarrow> Inr d | _ \<Rightarrow> Inl FileDataError)"

definition insert_pdf :: "'a page list \<Rightarrow> 'a page list \<Rightarrow> nat \<Rightarrow> failure + 'a page list" where
  \<comment> \<open>\<open>new_pdf.insert_pdf(doc, from_page=p, to_page=p)\<close>: the page numbers are clamped
      to the last page of the source, and a source without pages is refused\<close>
  "insert_pdf new_pdf doc p =
     (if doc = [] then Inl ValueError else Inr (new_pdf @ [doc ! min p (length doc - 1)]))"

fun insert_all :: "'a page list \<Rightarrow> 'a page list \<Rightarrow> nat list \<Rightarrow> failure + 'a page list" where
  \<comment> \<open>\<open>for p in invoice_pages: new_pdf.insert_pdf(doc, from_page=p, to_page=p)\<close>\<close>
  "insert_all new_pdf doc [] = Inr new_pdf"
| "insert_all new_pdf doc (p # ps) =
     (case insert_pdf new_pdf doc p of
        Inl e \<Rightarrow> Inl e
      | Inr new_pdf' \<Rightarrow> insert_all new_pdf' doc ps)"

section \<open>The splitter\<close>

record locals =
  split_files :: "string list"
  invoice_pages :: "nat list"
  invoice_data :: "string list"

definition filter_passes :: "string option \<Rightarrow> string \<Rightarrow> bool" where
  \<comment> \<open>\<open>not gstin_filter or gstin_filter.upper() == current_gstin.upper()\<close>; \<open>None\<close> and
      the empty string are the two falsy filters\<close>
  "filter_passes gstin_filter current_gstin =
     (case gstin_filter of
        None \<Rightarrow> True
      | Some f \<Rightarrow> f = [] \<or> upper f = upper current_gstin)"

definition finalize ::
  "(string \<Rightarrow> bool) \<Rightarrow> 'a page list \<Rightarrow> string option \<Rightarrow> locals \<Rightarrow> (locals, 'a) run" where
  \<comment> \<open>lines 101 to 112, and again 122 to 133: the block that saves the open invoice\<close>
  "finalize can_save doc gstin_filter st =
     (case py_index (invoice_data st) 1 of
        Inl e \<Rightarrow> (Inl e, [])
      | Inr current_gstin \<Rightarrow>
          if filter_passes gstin_filter current_gstin then
            (case py_index (invoice_data st) 0 of
               Inl e \<Rightarrow> (Inl e, [])
             | Inr doc_id \<Rightarrow>
                 let filename = secure_filename (doc_id @ ''_'' @ current_gstin @ ''.pdf'');
                     output_path = os_path_join OUTPUT_FOLDER filename
                 in (case insert_all [] doc (invoice_pages st) of
                       Inl e \<Rightarrow> (Inl e, [])
                     | Inr new_pdf \<Rightarrow>
                         if can_save output_path
                         then (Inr (st\<lparr>split_files := split_files st @ [filename]\<rparr>),
                               [Save output_path new_pdf])
                         else (Inl (SaveError output_path), [])))
          else (Inr st, []))"

fun for_pages ::
  "(string \<Rightarrow> bool) \<Rightarrow> 'a page list \<Rightarrow> string option \<Rightarrow> nat \<Rightarrow> 'a page list \<Rightarrow> locals
     \<Rightarrow> (locals, 'a) run" where
  \<comment> \<open>the loop of lines 90 to 118; \<open>page_num\<close> is the number of the first page of
      \<open>pages\<close>, the pages still to visit\<close>
  "for_pages can_save doc gstin_filter page_num [] st = (Inr st, [])"
| "for_pages can_save doc gstin_filter page_num (page # pages) st =
     (case get_text page of
        None \<Rightarrow> (Inl (TextError page_num), [])
      | Some text \<Rightarrow>
          (case (search doc_pattern text, search gst_pattern text) of
             (Some doc_match, Some gst_match) \<Rightarrow>
               (case (if invoice_pages st \<noteq> []
                      then finalize can_save doc gstin_filter st
                      else (Inr st, [])) of
                  (Inl e, es) \<Rightarrow> (Inl e, es)
                | (Inr st1, es) \<Rightarrow>
                    (case (group doc_match 1, group gst_match 1) of
                       (Inr d, Inr g) \<Rightarrow>
                         (case for_pages can_save doc gstin_filter (Suc page_num) pages
                                 (st1\<lparr>invoice_pages := [page_num], invoice_data := [d, g]\<rparr>) of
                            (r, es') \<Rightarrow> (r, es @ es'))
                     | (Inl e, _) \<Rightarrow> (Inl e, es)
                     | (_, Inl e) \<Rightarrow> (Inl e, es)))
           | _ \<Rightarrow>
               for_pages can_save doc gstin_filter (Suc page_num) pages
                 (if invoice_pages st \<noteq> []
                  then st\<lparr>invoice_pages := invoice_pages st @ [page_num]\<rparr>
                  else st)))"

definition process_last ::
  "(string \<Rightarrow> bool) \<Rightarrow> 'a page list \<Rightarrow> string option \<Rightarrow> (locals, 'a) run
     \<Rightarrow> (string list, 'a) run" where
  \<comment> \<open>lines 120 to 133 and the \<open>return\<close>, run on the outcome of the loop: an exception
      raised in the loop skips them\<close>
  "process_last can_save doc gstin_filter loop =
     (case loop of
        (Inl e, es) \<Rightarrow> (Inl e, es)
      | (Inr st, es) \<Rightarrow>
          if invoice_pages st \<noteq> [] then
            (case finalize can_save doc gstin_filter st of
               (Inl e, es') \<Rightarrow> (Inl e, es @ es')
             | (Inr st', es') \<Rightarrow> (Inr (split_files st'), es @ es'))
          else (Inr (split_files st), es))"

definition split_invoices ::
  "(string \<Rightarrow> bool) \<Rightarrow> 'a blob \<Rightarrow> string option \<Rightarrow> (string list, 'a) run" where
  \<comment> \<open>\<open>input_pdf\<close> is the file found at the path; \<open>can_save\<close> tells at which paths a
      write succeeds.  The \<open>except\<close> clause logs and raises again, the \<open>finally\<close>
      clause closes the document.\<close>
  "split_invoices can_save input_pdf gstin_filter =
     (case fitz_open input_pdf of
        Inl e \<Rightarrow> (Inl e, [])
      | Inr doc \<Rightarrow>
          (case process_last can_save doc gstin_filter
                  (for_pages can_save doc gstin_filter 0 doc
                     \<lparr>split_files = [], invoice_pages = [], invoice_data = []\<rparr>) of
             (r, es) \<Rightarrow> (r, es @ [Close])))"

section \<open>The upload endpoint\<close>

record 'a upload =
  filename :: string
  data :: "'a blob"

record 'a request =
  files :: "string \<rightharpoonup> 'a upload"
  form :: "string \<rightharpoonup> string"

datatype payload = Error_json string | Files_json string "string list"

datatype response = Response (status: nat) (body: payload)

definition zip_open :: "(string \<times> 'a blob) list \<Rightarrow> string \<Rightarrow> failure + 'a blob" where
  \<comment> \<open>\<open>zip_ref.open(name)\<close>: of several members with one name the last is read\<close>
  "zip_open members name =
     (case map_of (rev members) name of None \<Rightarrow> Inl KeyError | Some b \<Rightarrow> Inr b)"

fun for_members ::
  "(string \<Rightarrow> bool) \<Rightarrow> (string \<times> 'a blob) list \<Rightarrow> string option \<Rightarrow> string list
     \<Rightarrow> (string list, 'a) run" where
  \<comment> \<open>the loop of lines 60 to 65; the result is what the loop appends to \<open>split_files\<close>\<close>
  "for_members can_save members gstin_filter [] = (Inr [], [])"
| "for_members can_save members gstin_filter (pdf_file # pdf_files) =
     (let extracted_path = os_path_join UPLOAD_FOLDER (secure_filename pdf_file)
      in (case zip_open members pdf_file of
            Inl e \<Rightarrow> (Inl e, [])
          | Inr source \<Rightarrow>
              if \<not> can_save extracted_path then (Inl (SaveError extracted_path), [])
              else
                (case split_invoices can_save source gstin_filter of
                   (Inl e, es) \<Rightarrow> (Inl e, Store extracted_path source # es)
                 | (Inr names, es) \<Rightarrow>
                     (case for_members can_save members gstin_filter pdf_files of
                        (Inl e, es') \<Rightarrow>
                          (Inl e, Store extracted_path source # es @ Remove extracted_path # es')
                      | (Inr names', es') \<Rightarrow>
                          (Inr (names @ names'),
                           Store extracted_path source # es @ Remove extracted_path # es')))))"

definition process_upload ::
  "(string \<Rightarrow> bool) \<Rightarrow> 'a upload \<Rightarrow> string \<Rightarrow> (string list, 'a) run" where
  \<comment> \<open>lines 49 to 67\<close>
  "process_upload can_save file gstin_filter =
     (let name = secure_filename (filename file);
          file_path = os_path_join UPLOAD_FOLDER name
      in if \<not> can_save file_path then (Inl (SaveError file_path), [])
         else if endswith (lower name) ''.zip'' then
           (case data file of
              ZipArchive members \<Rightarrow>
                (case for_members can_save members (Some gstin_filter)
                        (filter (\<lambda>f. endswith (lower f) ''.pdf'') (map fst members)) of
                   (r, es) \<Rightarrow> (r, Store file_path (data file) # es))
            | _ \<Rightarrow> (Inl BadZipFile, [Store file_path (data file)]))
         else
           (case split_invoices can_save (data file) (Some gstin_filter) of
              (r, es) \<Rightarrow> (r, Store file_path (data file) # es)))"

definition upload_pdf :: "(string \<Rightarrow> bool) \<Rightarrow> 'a request \<Rightarrow> response \<times> 'a effect list" where
  "upload_pdf can_save req =
     (case files req ''file'' of
        None \<Rightarrow> (Response 400 (Error_json ''No file part''), [])
      | Some file \<Rightarrow>
          let gstin_filter = strip (case form req ''gstin'' of None \<Rightarrow> [] | Some v \<Rightarrow> v)
          in if filename file = [] then (Response 400 (Error_json ''No selected file''), [])
             else if \<not> allowed_file (filename file) then
               (Response 400
                  (Error_json ''Invalid file type. Only PDF and ZIP files are allowed.''), [])
             else
               (case process_upload can_save file gstin_filter of
                  (Inl e, es) \<Rightarrow>
                    (Response 500 (Error_json ''An error occurred while processing the file''), es)
                | (Inr names, es) \<Rightarrow>
                    (Response 200 (Files_json ''Files processed successfully!'' names), es)))"

section \<open>Notions of the specification\<close>

definition is_marker_text :: "string \<Rightarrow> bool" where
  \<comment> \<open>the test of line 98 on the text of a page\<close>
  "is_marker_text t = (search doc_pattern t \<noteq> None \<and> search gst_pattern t \<noteq> None)"

definition is_marker :: "'a page \<Rightarrow> bool" where
  \<comment> \<open>a marker page: a page whose text matches both patterns\<close>
  "is_marker p = (case get_text p of None \<Rightarrow> False | Some t \<Rightarrow> is_marker_text t)"

definition readable :: "'a page \<Rightarrow> bool" where
  "readable p = (get_text p \<noteq> None)"



definition doc_id_of :: "'a page \<Rightarrow> string" where
  \<comment> \<open>the document id captured on a page, \<open>doc_pattern.search(text).group(1)\<close>\<close>
  "doc_id_of p =
     (case get_text p of
        None \<Rightarrow> []
      | Some t \<Rightarrow> (case search doc_pattern t of Some (d # _) \<Rightarrow> d | _ \<Rightarrow> []))"

definition gstin_of :: "'a page \<Rightarrow> string" where
  \<comment> \<open>the GSTIN captured on a page, \<open>gst_pattern.search(text).group(1)\<close>\<close>
  "gstin_of p =
     (case get_text p of
        None \<Rightarrow> []
      | Some t \<Rightarrow> (case search gst_pattern t of Some (g # _) \<Rightarrow> g | _ \<Rightarrow> []))"

definition invoice_name :: "'a page \<Rightarrow> string" where
  \<comment> \<open>the file name of the invoice opened by a marker page\<close>
  "invoice_name p = secure_filename (doc_id_of p @ ''_'' @ gstin_of p @ ''.pdf'')"

definition invoice_path :: "'a page \<Rightarrow> string" where
  "invoice_path p = os_path_join OUTPUT_FOLDER (invoice_name p)"

definition marker_positions :: "'a page list \<Rightarrow> nat list" where
  \<comment> \<open>the page numbers of the marker pages, in page order\<close>
  "marker_positions doc = filter (\<lambda>i. is_marker (doc ! i)) [0..<length doc]"

definition invoice_at :: "'a page list \<Rightarrow> nat \<Rightarrow> 'a page list" where
  \<comment> \<open>the marker page \<open>m\<close> followed by the pages after it up to, and without, the next
      marker page or the end of the document\<close>
  "invoice_at doc m = doc ! m # takeWhile (\<lambda>q. \<not> is_marker q) (drop (Suc m) doc)"

definition passing_positions :: "string option \<Rightarrow> 'a page list \<Rightarrow> nat list" where
  \<comment> \<open>the marker pages whose captured GSTIN passes the filter\<close>
  "passing_positions gf doc =
     filter (\<lambda>m. filter_passes gf (gstin_of (doc ! m))) (marker_positions doc)"


fun apply_effect :: "(string \<rightharpoonup> 'a blob) \<Rightarrow> 'a effect \<Rightarrow> (string \<rightharpoonup> 'a blob)" where
  \<comment> \<open>what an effect does to the files on disk\<close>
  "apply_effect disk (Save path pages) = disk(path \<mapsto> PdfDoc pages)"
| "apply_effect disk Close = disk"
| "apply_effect disk (Store path b) = disk(path \<mapsto> b)"
| "apply_effect disk (Remove path) = disk(path := None)"

definition disk_after :: "(string \<rightharpoonup> 'a blob) \<Rightarrow> 'a effect list \<Rightarrow> (string \<rightharpoonup> 'a blob)" where
  "disk_after disk es = foldl apply_effect disk es"


subsection \<open>The labels of a marker page\<close>

text \<open>
  Reading a text from a given place, without backtracking: \<open>expect\<close> reads a fixed
  string, \<open>spaces\<close> one or more white space characters, \<open>token\<close> a token, that is
  the characters up to the next white space or the end, at least one.  \<open>first_at\<close>
  tries the places of a text from left to right.
\<close>

definition expect :: "string \<Rightarrow> string \<Rightarrow> string option" where
  "expect l s = (if prefix l s then Some (drop (length l) s) else None)"


definition token :: "string \<Rightarrow> string option" where
  "token s =
     (case s of
        [] \<Rightarrow> None
      | x # xs \<Rightarrow> if is_space x then None else Some (x # takeWhile (\<lambda>c. \<not> is_space c) xs))"

fun first_at :: "(string \<Rightarrow> 'b option) \<Rightarrow> string \<Rightarrow> 'b option" where
  "first_at f [] = f []"
| "first_at f (x # xs) = (case f (x # xs) of Some v \<Rightarrow> Some v | None \<Rightarrow> first_at f xs)"

definition token_after :: "string \<Rightarrow> string \<Rightarrow> string option" where
  \<comment> \<open>the first token of the text that immediately follows the literal label\<close>
  "token_after label t = first_at (\<lambda>s. Option.bind (expect label s) token) t"



definition other_stop_at :: "string \<Rightarrow> string option" where
  \<comment> \<open>a place that reads \<open>Document No\<close>, a character that is neither the full stop nor
      the line feed, \<open> : \<close> and a token\<close>
  "other_stop_at s =
     Option.bind (expect ''Document No'' s) (\<lambda>s.
       case s of
         [] \<Rightarrow> None
       | c # s \<Rightarrow>
           if c = CHR ''.'' \<or> c = CHR 0x0A then None
           else Option.bind (expect '' : '' s) token)"

definition stop_is_literal :: "string \<Rightarrow> bool" where
  \<comment> \<open>the text has no such place\<close>
  "stop_is_literal t = (first_at other_stop_at t = None)"

subsection \<open>Auxiliary functions of the proofs\<close>

fun ngroups :: "node list \<Rightarrow> nat" where
  \<comment> \<open>the number of capturing groups of a pattern\<close>
  "ngroups [] = 0"
| "ngroups (Cap_Plus c # r) = Suc (ngroups r)"
| "ngroups (Cap_Star c acc # r) = Suc (ngroups r)"
| "ngroups (_ # r) = ngroups r"

fun groups :: "'a page list \<Rightarrow> ('a page \<times> 'a page list) list" where
  \<comment> \<open>the invoices of a list of pages, each with its marker page, by recursion on the pages\<close>
  "groups [] = []"
| "groups (p # ps) =
     (if is_marker p then (p, p # takeWhile (\<lambda>q. \<not> is_marker q) ps) # groups ps else groups ps)"

fun emit ::
  "(string \<Rightarrow> bool) \<Rightarrow> string option \<Rightarrow> string list \<Rightarrow> ('a page \<times> 'a page list) list
     \<Rightarrow> (string list, 'a) run" where
  \<comment> \<open>saving a list of invoices one after the other, up to the first save that fails\<close>
  "emit can_save gf names [] = (Inr names, [])"
| "emit can_save gf names ((m, pages) # invs) =
     (if filter_passes gf (gstin_of m) then
        if can_save (invoice_path m) then
          (case emit can_save gf (names @ [invoice_name m]) invs of
             (r, es) \<Rightarrow> (r, Save (invoice_path m) pages # es))
        else (Inl (SaveError (invoice_path m)), [])
      else emit can_save gf names invs)"

section \<open>Properties: pages that open no invoice\<close>






section \<open>Properties: the upload endpoint\<close>

lemma allowed_file_iff:
  "allowed_file name \<longleftrightarrow>
   (\<exists>stem ext. name = stem @ ''.'' @ ext \<and> CHR ''.'' \<notin> set ext \<and> (lower ext = ''pdf'' \<or> lower ext = ''zip''))"
proof
  assume a: "allowed_file name"
  let ?P = "\<lambda>c. c \<noteq> CHR ''.''"
  from a have d: "CHR ''.'' \<in> set (rev name)" by (simp add: allowed_file_def)
  then have ne: "dropWhile ?P (rev name) \<noteq> []" by (auto simp: dropWhile_eq_Nil_conv)
  then have h: "hd (dropWhile ?P (rev name)) = CHR ''.''" using hd_dropWhile [of ?P "rev name"] by auto
  then obtain r where r: "dropWhile ?P (rev name) = CHR ''.'' # r" using ne by (cases "dropWhile ?P (rev name)") auto
  have "rev name = takeWhile ?P (rev name) @ CHR ''.'' # r" using r takeWhile_dropWhile_id [of ?P "rev name"] by simp
  then have "rev (rev name) = rev (takeWhile ?P (rev name) @ CHR ''.'' # r)" by simp
  then have "name = rev r @ ''.'' @ rsplit1_last name" by (simp add: rsplit1_last_def)
  moreover have "CHR ''.'' \<notin> set (rsplit1_last name)"
    using set_takeWhileD [of "CHR ''.''" ?P "rev name"] by (auto simp: rsplit1_last_def)
  moreover have "lower (rsplit1_last name) = ''pdf'' \<or> lower (rsplit1_last name) = ''zip''"
    using a by (simp add: allowed_file_def ALLOWED_EXTENSIONS_def)
  ultimately show "\<exists>stem ext. name = stem @ ''.'' @ ext \<and> CHR ''.'' \<notin> set ext \<and> (lower ext = ''pdf'' \<or> lower ext = ''zip'')"
    by blast
next
  assume "\<exists>stem ext. name = stem @ ''.'' @ ext \<and> CHR ''.'' \<notin> set ext \<and> (lower ext = ''pdf'' \<or> lower ext = ''zip'')"
  then obtain stem ext where n: "name = stem @ ''.'' @ ext" and e: "CHR ''.'' \<notin> set ext"
    and l: "lower ext = ''pdf'' \<or> lower ext = ''zip''" by blast
  have "rev name = rev ext @ CHR ''.'' # rev stem" using n by simp
  moreover have "takeWhile (\<lambda>c. c \<noteq> CHR ''.'') (rev ext @ CHR ''.'' # rev stem) = rev ext"
    using e by (auto simp: takeWhile_tail)
  ultimately have "rsplit1_last name = ext" by (simp add: rsplit1_last_def)
  then show "allowed_file name" using n l by (auto simp: allowed_file_def ALLOWED_EXTENSIONS_def)
qed

text \<open>
  Claim C8.  When the request has no part named \<open>file\<close>, or the part's file name is
  empty, or the name does not end in a dot followed by \<open>pdf\<close> or \<open>zip\<close> in any mix
  of cases, \<open>upload_pdf\<close> answers with status 400 and a JSON error that names the cause,
  and performs no effect: nothing is stored, split or saved.
\<close>

theorem upload_rejects_malformed:
  assumes "case files req ''file'' of
             None \<Rightarrow> True
           | Some f \<Rightarrow> filename f = [] \<or>
               \<not> (\<exists>stem ext. filename f = stem @ ''.'' @ ext \<and> CHR ''.'' \<notin> set ext \<and>
                     (lower ext = ''pdf'' \<or> lower ext = ''zip''))"
  shows "upload_pdf can_save req =
           (Response 400
              (Error_json
                 (case files req ''file'' of
                    None \<Rightarrow> ''No file part''
                  | Some f \<Rightarrow>
                      if filename f = [] then ''No selected file''
                      else ''Invalid file type. Only PDF and ZIP files are allowed.'')),
            [])"
proof (cases "files req ''file''")
  case None
  then show ?thesis by (simp add: upload_pdf_def)
next
  case (Some f)
  with assms have "filename f = [] \<or> \<not> allowed_file (filename f)"
    by (simp add: allowed_file_iff)
  with Some show ?thesis by (auto simp: upload_pdf_def Let_def)
qed

theorem upload_rejects_malformed_witness:
  "upload_pdf (\<lambda>_. True)
     \<lparr>files = [''file'' \<mapsto> \<lparr>filename = ''invoices.PDF.exe'', data = PdfDoc [Page (0::nat) (Some ''Document No. : A1 Recipient : GSTIN : G1'')]\<rparr>],
      form = Map.empty\<rparr>
   = (Response 400 (Error_json ''Invalid file type. Only PDF and ZIP files are allowed.''), [])"
proof -
  let ?f = "\<lparr>filename = ''invoices.PDF.exe'', data = PdfDoc [Page (0::nat) (Some ''Document No. : A1 Recipient : GSTIN : G1'')]\<rparr>"
  let ?req = "\<lparr>files = [''file'' \<mapsto> ?f], form = Map.empty\<rparr>"
  have "\<not> allowed_file ''invoices.PDF.exe''" by code_simp
  then have h: "case files ?req ''file'' of
             None \<Rightarrow> True
           | Some f \<Rightarrow> filename f = [] \<or>
               \<not> (\<exists>stem ext. filename f = stem @ ''.'' @ ext \<and> CHR ''.'' \<notin> set ext \<and>
                     (lower ext = ''pdf'' \<or> lower ext = ''zip''))"
    by (simp add: allowed_file_iff)
  show ?thesis using upload_rejects_malformed [OF h, of "\<lambda>_. True"] by simp
qed

section \<open>Properties: the GSTIN filter\<close>




lemma insert_all_in_range:
  "\<forall>p\<in>set ps. p < length doc \<Longrightarrow> insert_all acc doc ps = Inr (acc @ map (nth doc) ps)"
proof (induction ps arbitrary: acc)
  case Nil
  then show ?case by simp
next
  case (Cons p ps)
  then have "p < length doc" by simp
  then have "insert_pdf acc doc p = Inr (acc @ [doc ! p])"
    by (auto simp: insert_pdf_def min_def)
  then show ?case using Cons by simp
qed



section \<open>Properties: the loop and the invoices it saves\<close>

lemma rmatch_ngroups: "rmatch pat s = Some gs \<Longrightarrow> length gs = ngroups pat"
  by (induction pat s arbitrary: gs rule: rmatch.induct)
     (auto split: if_splits option.splits)

lemma search_ngroups: "search pat s = Some gs \<Longrightarrow> length gs = ngroups pat"
  by (induction pat s rule: search.induct) (auto split: option.splits dest: rmatch_ngroups)

lemma ngroups_doc: "ngroups doc_pattern = 1"
  by (simp add: doc_pattern_def lits_def)

lemma ngroups_gst: "ngroups gst_pattern = 1"
  by (simp add: gst_pattern_def lits_def)

lemma search_doc_single: "search doc_pattern t = Some gs \<Longrightarrow> \<exists>d. gs = [d]"
  using search_ngroups [of doc_pattern t gs] by (cases gs) (auto simp: ngroups_doc)

lemma search_gst_single: "search gst_pattern t = Some gs \<Longrightarrow> \<exists>g. gs = [g]"
  using search_ngroups [of gst_pattern t gs] by (cases gs) (auto simp: ngroups_gst)

lemma marker_step:
  assumes "is_marker p"
  shows "for_pages cs doc gf n (p # ps) st =
           (case (if invoice_pages st \<noteq> [] then finalize cs doc gf st else (Inr st, [])) of
              (Inl e, es) \<Rightarrow> (Inl e, es)
            | (Inr st1, es) \<Rightarrow>
                (case for_pages cs doc gf (Suc n) ps
                        (st1\<lparr>invoice_pages := [n], invoice_data := [doc_id_of p, gstin_of p]\<rparr>) of
                   (r, es') \<Rightarrow> (r, es @ es')))"
proof -
  from assms obtain t where t: "get_text p = Some t" and m: "is_marker_text t"
    by (auto simp: is_marker_def split: option.splits)
  from m obtain dm gm where dm: "search doc_pattern t = Some dm" and gm: "search gst_pattern t = Some gm"
    by (auto simp: is_marker_text_def)
  from search_doc_single [OF dm] obtain d where d: "dm = [d]" by blast
  from search_gst_single [OF gm] obtain g where g: "gm = [g]" by blast
  have "doc_id_of p = d" "gstin_of p = g"
    using t dm gm d g by (simp_all add: doc_id_of_def gstin_of_def)
  then show ?thesis
    using t dm gm d g by (simp add: group_def split: prod.splits sum.splits)
qed

lemma plain_step:
  assumes "readable p" and "\<not> is_marker p"
  shows "for_pages cs doc gf n (p # ps) st =
           for_pages cs doc gf (Suc n) ps
             (if invoice_pages st \<noteq> [] then st\<lparr>invoice_pages := invoice_pages st @ [n]\<rparr> else st)"
proof -
  from assms obtain t where t: "get_text p = Some t" and m: "\<not> is_marker_text t"
    by (auto simp: readable_def is_marker_def)
  from m have "search doc_pattern t = None \<or> search gst_pattern t = None"
    by (simp add: is_marker_text_def)
  then show ?thesis using t by (auto split: option.splits)
qed

lemma finalize_open:
  assumes "invoice_data st = [doc_id_of m, gstin_of m]"
    and "\<forall>p\<in>set (invoice_pages st). p < length doc"
  shows "finalize cs doc gf st =
           (if filter_passes gf (gstin_of m) then
              if cs (invoice_path m)
              then (Inr (st\<lparr>split_files := split_files st @ [invoice_name m]\<rparr>),
                    [Save (invoice_path m) (map (nth doc) (invoice_pages st))])
              else (Inl (SaveError (invoice_path m)), [])
            else (Inr st, []))"
  using assms(1) insert_all_in_range [OF assms(2), of "[]"]
  by (simp add: finalize_def py_index_def Let_def invoice_path_def invoice_name_def)

lemma process_last_prefix:
  "process_last cs doc gf (case X of (r, es') \<Rightarrow> (r, es @ es')) =
     (case process_last cs doc gf X of (r, es') \<Rightarrow> (r, es @ es'))"
  by (cases X) (auto simp: process_last_def split: sum.splits prod.splits)

lemma groups_dropWhile: "groups (dropWhile (\<lambda>q. \<not> is_marker q) ps) = groups ps"
  by (induction ps) auto

lemma loop_refines:
  assumes "\<forall>p\<in>set pages. readable p" and "doc = pre @ pages" and "n = length pre"
  shows "(invoice_pages st = [] \<longrightarrow>
            process_last cs doc gf (for_pages cs doc gf n pages st) =
            emit cs gf (split_files st) (groups pages))
       \<and> (\<forall>k. k < n \<and> invoice_pages st = [k..<n] \<and>
                invoice_data st = [doc_id_of (doc ! k), gstin_of (doc ! k)] \<longrightarrow>
            process_last cs doc gf (for_pages cs doc gf n pages st) =
            emit cs gf (split_files st)
              ((doc ! k, map (nth doc) [k..<n] @ takeWhile (\<lambda>q. \<not> is_marker q) pages)
               # groups pages))"
  using assms
proof (induction pages arbitrary: pre n st)
  case Nil
  have a: "invoice_pages st = [] \<Longrightarrow> process_last cs doc gf (Inr st, []) = (Inr (split_files st), [])"
    by (simp add: process_last_def)
  have b: "process_last cs doc gf (Inr st, []) =
             emit cs gf (split_files st) [(doc ! k, map (nth doc) [k..<n])]"
    if "k < n" "invoice_pages st = [k..<n]"
       "invoice_data st = [doc_id_of (doc ! k), gstin_of (doc ! k)]" for k
  proof -
    have r: "\<forall>p\<in>set (invoice_pages st). p < length doc"
      using that Nil by simp
    show ?thesis
      using that finalize_open [OF that(3) r, of cs gf]
      by (simp add: process_last_def)
  qed
  show ?case using a b by simp
next
  case (Cons p ps)
  have rp: "readable p" and rps: "\<forall>q\<in>set ps. readable q" using Cons.prems(1) by simp_all
  have doc': "doc = (pre @ [p]) @ ps" using Cons.prems(2) by simp
  have n': "Suc n = length (pre @ [p])" using Cons.prems(3) by simp
  have pn: "doc ! n = p" using Cons.prems(2,3) by simp
  have len: "n < length doc" using Cons.prems(2,3) by simp
  have IHc: "process_last cs doc gf (for_pages cs doc gf (Suc n) ps s) =
             emit cs gf (split_files s) (groups ps)" if "invoice_pages s = []" for s
    using Cons.IH [OF rps doc' n', of s] that by blast
  have IHo: "process_last cs doc gf (for_pages cs doc gf (Suc n) ps s) =
             emit cs gf (split_files s)
               ((doc ! k, map (nth doc) [k..<Suc n] @ takeWhile (\<lambda>q. \<not> is_marker q) ps)
                # groups ps)"
    if "k < Suc n" "invoice_pages s = [k..<Suc n]"
       "invoice_data s = [doc_id_of (doc ! k), gstin_of (doc ! k)]" for s k
    using Cons.IH [OF rps doc' n', of s] that by blast
  show ?case
  proof (cases "is_marker p")
    case True
    let ?new = "\<lambda>s. s\<lparr>invoice_pages := [n], invoice_data := [doc_id_of p, gstin_of p]\<rparr>"
    have open_new: "process_last cs doc gf (for_pages cs doc gf (Suc n) ps (?new s)) =
                    emit cs gf (split_files s)
                      ((p, p # takeWhile (\<lambda>q. \<not> is_marker q) ps) # groups ps)" for s
    proof -
      have 1: "n < Suc n" by simp
      have 2: "invoice_pages (?new s) = [n..<Suc n]" by simp
      have 3: "invoice_data (?new s) = [doc_id_of (doc ! n), gstin_of (doc ! n)]"
        using pn by simp
      have "map (nth doc) [n..<Suc n] = [p]" using pn by simp
      with IHo [OF 1 2 3] show ?thesis using pn by simp
    qed
    have closed: "process_last cs doc gf (for_pages cs doc gf n (p # ps) st) =
                  emit cs gf (split_files st) (groups (p # ps))" if "invoice_pages st = []"
    proof -
      have "for_pages cs doc gf n (p # ps) st = for_pages cs doc gf (Suc n) ps (?new st)"
        using that by (simp add: marker_step [OF True] del: for_pages.simps)
      then show ?thesis using open_new [of st] True by simp
    qed
    have opened: "process_last cs doc gf (for_pages cs doc gf n (p # ps) st) =
                  emit cs gf (split_files st)
                    ((doc ! k, map (nth doc) [k..<n] @ takeWhile (\<lambda>q. \<not> is_marker q) (p # ps))
                     # groups (p # ps))"
      if "k < n" "invoice_pages st = [k..<n]"
         "invoice_data st = [doc_id_of (doc ! k), gstin_of (doc ! k)]" for k
    proof -
      have r: "\<forall>q\<in>set (invoice_pages st). q < length doc"
        using that len by simp
      have ne: "invoice_pages st \<noteq> []" using that by simp
      have tw: "takeWhile (\<lambda>q. \<not> is_marker q) (p # ps) = []" using True by simp
      have gr: "groups (p # ps) = (p, p # takeWhile (\<lambda>q. \<not> is_marker q) ps) # groups ps"
        using True by simp
      note fin = finalize_open [OF that(3) r, of cs gf]
      show ?thesis
      proof (cases "filter_passes gf (gstin_of (doc ! k))")
        case False
        then have "for_pages cs doc gf n (p # ps) st = for_pages cs doc gf (Suc n) ps (?new st)"
          using ne fin by (simp add: marker_step [OF True] del: for_pages.simps)
        then show ?thesis using open_new [of st] False gr tw by simp
      next
        case pass: True
        show ?thesis
        proof (cases "cs (invoice_path (doc ! k))")
          case False
          then have "for_pages cs doc gf n (p # ps) st = (Inl (SaveError (invoice_path (doc ! k))), [])"
            using ne fin pass by (simp add: marker_step [OF True] del: for_pages.simps)
          then show ?thesis using pass False by (simp add: process_last_def)
        next
          case ok: True
          let ?st1 = "st\<lparr>split_files := split_files st @ [invoice_name (doc ! k)]\<rparr>"
          have "for_pages cs doc gf n (p # ps) st =
                  (case for_pages cs doc gf (Suc n) ps (?new ?st1) of
                     (r, es') \<Rightarrow> (r, [Save (invoice_path (doc ! k)) (map (nth doc) [k..<n])] @ es'))"
            using ne fin pass ok that(2) by (simp add: marker_step [OF True] del: for_pages.simps)
          then have "process_last cs doc gf (for_pages cs doc gf n (p # ps) st) =
                  (case process_last cs doc gf (for_pages cs doc gf (Suc n) ps (?new ?st1)) of
                     (r, es') \<Rightarrow> (r, [Save (invoice_path (doc ! k)) (map (nth doc) [k..<n])] @ es'))"
            by (simp only: process_last_prefix)
          then show ?thesis using open_new [of ?st1] pass ok gr tw by simp
        qed
      qed
    qed
    show ?thesis using closed opened by blast
  next
    case False
    have tw: "takeWhile (\<lambda>q. \<not> is_marker q) (p # ps) = p # takeWhile (\<lambda>q. \<not> is_marker q) ps"
      using False by simp
    have gr: "groups (p # ps) = groups ps" using False by simp
    have closed: "process_last cs doc gf (for_pages cs doc gf n (p # ps) st) =
                  emit cs gf (split_files st) (groups (p # ps))" if "invoice_pages st = []"
    proof -
      have "for_pages cs doc gf n (p # ps) st = for_pages cs doc gf (Suc n) ps st"
        using that by (simp add: plain_step [OF rp False] del: for_pages.simps)
      then show ?thesis using IHc [OF that] gr by simp
    qed
    have opened: "process_last cs doc gf (for_pages cs doc gf n (p # ps) st) =
                  emit cs gf (split_files st)
                    ((doc ! k, map (nth doc) [k..<n] @ takeWhile (\<lambda>q. \<not> is_marker q) (p # ps))
                     # groups (p # ps))"
      if "k < n" "invoice_pages st = [k..<n]"
         "invoice_data st = [doc_id_of (doc ! k), gstin_of (doc ! k)]" for k
    proof -
      let ?st = "st\<lparr>invoice_pages := invoice_pages st @ [n]\<rparr>"
      have 1: "k < Suc n" using that by simp
      have 2: "invoice_pages ?st = [k..<Suc n]" using that by simp
      have 3: "invoice_data ?st = [doc_id_of (doc ! k), gstin_of (doc ! k)]" using that by simp
      have ne: "invoice_pages st \<noteq> []" using that by simp
      have m: "map (nth doc) [k..<Suc n] = map (nth doc) [k..<n] @ [p]"
        using that pn by simp
      have "for_pages cs doc gf n (p # ps) st = for_pages cs doc gf (Suc n) ps ?st"
        using ne by (simp add: plain_step [OF rp False] del: for_pages.simps)
      then show ?thesis using IHo [OF 1 2 3] m tw gr by simp
    qed
    show ?thesis using closed opened by blast
  qed
qed


lemma groups_positions_from:
  "groups (drop n doc) =
     map (\<lambda>m. (doc ! m, invoice_at doc m)) (filter (\<lambda>i. is_marker (doc ! i)) [n..<length doc])"
proof (induction "length doc - n" arbitrary: n)
  case 0
  then show ?case by simp
next
  case (Suc d)
  then have n: "n < length doc" by simp
  have dr: "drop n doc = doc ! n # drop (Suc n) doc"
    using n by (simp add: Cons_nth_drop_Suc)
  have up: "[n..<length doc] = n # [Suc n..<length doc]"
    using n by (simp add: upt_conv_Cons)
  have "d = length doc - Suc n" using Suc.hyps(2) by simp
  from Suc.hyps(1) [OF this] show ?case
    by (simp add: dr up invoice_at_def)
qed

lemma groups_positions:
  "groups doc = map (\<lambda>m. (doc ! m, invoice_at doc m)) (marker_positions doc)"
  using groups_positions_from [of 0 doc] by (simp add: marker_positions_def)

lemma emit_success:
  "\<forall>m\<in>set ms. filter_passes gf (gstin_of (doc ! m)) \<longrightarrow> cs (invoice_path (doc ! m)) \<Longrightarrow>
   emit cs gf names (map (\<lambda>m. (doc ! m, invoice_at doc m)) ms) =
     (Inr (names @ map (\<lambda>m. invoice_name (doc ! m))
                     (filter (\<lambda>m. filter_passes gf (gstin_of (doc ! m))) ms)),
      map (\<lambda>m. Save (invoice_path (doc ! m)) (invoice_at doc m))
          (filter (\<lambda>m. filter_passes gf (gstin_of (doc ! m))) ms))"
  by (induction ms arbitrary: names) auto


lemma split_invoices_emit:
  assumes "\<forall>p\<in>set doc. readable p"
  shows "split_invoices cs (PdfDoc doc) gf =
           (case emit cs gf [] (map (\<lambda>m. (doc ! m, invoice_at doc m)) (marker_positions doc)) of
              (r, es) \<Rightarrow> (r, es @ [Close]))"
proof -
  let ?st = "\<lparr>split_files = [], invoice_pages = [], invoice_data = []\<rparr>"
  have "process_last cs doc gf (for_pages cs doc gf 0 doc ?st) = emit cs gf (split_files ?st) (groups doc)"
    using loop_refines [OF assms, of doc "[]" 0 ?st cs gf] by simp
  then show ?thesis
    by (simp add: split_invoices_def fitz_open_def groups_positions)
qed

lemma split_invoices_success:
  assumes "\<forall>p\<in>set doc. readable p"
    and "\<forall>m\<in>set (passing_positions gf doc). cs (invoice_path (doc ! m))"
  shows "split_invoices cs (PdfDoc doc) gf =
           (Inr (map (\<lambda>m. invoice_name (doc ! m)) (passing_positions gf doc)),
            map (\<lambda>m. Save (invoice_path (doc ! m)) (invoice_at doc m)) (passing_positions gf doc)
            @ [Close])"
proof -
  have "\<forall>m\<in>set (marker_positions doc).
          filter_passes gf (gstin_of (doc ! m)) \<longrightarrow> cs (invoice_path (doc ! m))"
    using assms(2) by (simp add: passing_positions_def)
  from emit_success [OF this, of "[]"] show ?thesis
    by (simp add: split_invoices_emit [OF assms(1)] passing_positions_def)
qed












section \<open>Properties: two invoices with one file name\<close>

lemma disk_after_append: "disk_after disk (es @ es') = disk_after (disk_after disk es) es'"
  by (simp add: disk_after_def)

lemma disk_after_saves_other:
  "\<forall>m\<in>set ms. f m \<noteq> path \<Longrightarrow>
   disk_after disk (map (\<lambda>m. Save (f m) (g m)) ms) path = disk path"
  by (induction ms arbitrary: disk) (auto simp: disk_after_def)

lemma disk_after_last_save:
  assumes "j < length ms"
    and "\<forall>k. j < k \<and> k < length ms \<longrightarrow> f (ms ! k) \<noteq> f (ms ! j)"
  shows "disk_after disk (map (\<lambda>m. Save (f m) (g m)) ms @ [Close]) (f (ms ! j))
           = Some (PdfDoc (g (ms ! j)))"
proof -
  have ms: "ms = take j ms @ ms ! j # drop (Suc j) ms"
    using assms(1) by (simp add: id_take_nth_drop)
  have later: "\<forall>m\<in>set (drop (Suc j) ms). f m \<noteq> f (ms ! j)"
  proof
    fix m assume "m \<in> set (drop (Suc j) ms)"
    then obtain i where i: "i < length (drop (Suc j) ms)" "m = drop (Suc j) ms ! i"
      by (auto simp: in_set_conv_nth)
    then have "m = ms ! (Suc j + i)" "Suc j + i < length ms" by auto
    then show "f m \<noteq> f (ms ! j)" using assms(2) by auto
  qed
  let ?S = "\<lambda>xs. map (\<lambda>m. Save (f m) (g m)) xs"
  have "?S ms @ [Close] = ?S (take j ms) @ [Save (f (ms ! j)) (g (ms ! j))] @ ?S (drop (Suc j) ms) @ [Close]"
    by (subst ms) simp
  then have "disk_after disk (?S ms @ [Close]) (f (ms ! j)) =
        disk_after (disk_after (disk_after (disk_after disk (?S (take j ms)))
                       [Save (f (ms ! j)) (g (ms ! j))]) (?S (drop (Suc j) ms))) [Close] (f (ms ! j))"
    by (simp only: disk_after_append)
  also have "\<dots> = disk_after (disk_after (disk_after disk (?S (take j ms)))
                       [Save (f (ms ! j)) (g (ms ! j))]) (?S (drop (Suc j) ms)) (f (ms ! j))"
    by (simp add: disk_after_def)
  also have "\<dots> = disk_after (disk_after disk (?S (take j ms)))
                       [Save (f (ms ! j)) (g (ms ! j))] (f (ms ! j))"
    by (rule disk_after_saves_other [OF later])
  also have "\<dots> = Some (PdfDoc (g (ms ! j)))"
    by (simp add: disk_after_def)
  finally show ?thesis .
qed



text \<open>
  When the invoices that pass the filter have pairwise different output paths, every saved
  file is found on disk after the run with the pages of its own invoice.
\<close>

lemma saved_files_on_disk:
  assumes "\<forall>p\<in>set doc. readable p"
    and "\<forall>m\<in>set (passing_positions gstin_filter doc). can_save (invoice_path (doc ! m))"
    and "distinct (map (\<lambda>m. invoice_path (doc ! m)) (passing_positions gstin_filter doc))"
    and "m \<in> set (passing_positions gstin_filter doc)"
  shows "disk_after disk (snd (split_invoices can_save (PdfDoc doc) gstin_filter))
           (invoice_path (doc ! m))
         = Some (PdfDoc (invoice_at doc m))"
proof -
  let ?ms = "passing_positions gstin_filter doc"
  let ?f = "\<lambda>m. invoice_path (doc ! m)"
  from assms(4) obtain j where j: "j < length ?ms" and m: "?ms ! j = m"
    by (auto simp: in_set_conv_nth)
  have later: "\<forall>k. j < k \<and> k < length ?ms \<longrightarrow> ?f (?ms ! k) \<noteq> ?f (?ms ! j)"
  proof (intro allI impI)
    fix k assume k: "j < k \<and> k < length ?ms"
    have lk: "k < length (map ?f ?ms)" and lj: "j < length (map ?f ?ms)" using k j by simp_all
    have "k \<noteq> j" using k by simp
    then have "map ?f ?ms ! k \<noteq> map ?f ?ms ! j"
      using nth_eq_iff_index_eq [OF assms(3) lk lj] by blast
    then show "?f (?ms ! k) \<noteq> ?f (?ms ! j)" using k j by simp
  qed
  from disk_after_last_save [OF j later, of disk "invoice_at doc"]
  show ?thesis
    using m by (simp add: split_invoices_success [OF assms(1,2)])
qed

section \<open>Properties: failures and the document handle\<close>












section \<open>Properties: the two patterns\<close>






















text \<open>
  The full stop of \<open>Document No.\<close> is not escaped in the pattern and stands for any
  character but the line feed, so that a text without the literal label can open an
  invoice; the amended claim leaves such texts out.
\<close>

lemma stop_matches_other_characters:
  "is_marker_text ''Document Nov : A1 Recipient : GSTIN : G1''
   \<and> token_after ''Document No. : '' ''Document Nov : A1 Recipient : GSTIN : G1'' = None
   \<and> \<not> stop_is_literal ''Document Nov : A1 Recipient : GSTIN : G1''"
  by code_simp

end
